theory Spec2Isabelle
  imports Main "HOL-Library.Multiset"
begin

section \<open>Table of contents of a fitz document\<close>

text \<open>
  \<^verbatim>\<open>bookworm/document_formats/mu/__init__.py\<close>, property \<^verbatim>\<open>FitzDocument.toc_tree\<close>.
  Page numbers and outline levels are Python integers, hence \<^typ>\<open>int\<close>; the page count
  \<^verbatim>\<open>len(self)\<close> is a natural number. An \<^verbatim>\<open>IndexError\<close> is a value.
\<close>

datatype py_error = IndexError

record pager =
  first :: int
  last_page :: int
  current :: int

datatype toc_section = Section (title: string) (pager: pager) (children: "toc_section list")

text \<open>An outline entry \<^verbatim>\<open>(level, title, start_page, *extra)\<close>; the extra items are never read.\<close>

type_synonym toc_entry = "int \<times> string \<times> int"

definition level :: "toc_entry \<Rightarrow> int" where
  "level e = fst e"

definition start_page :: "toc_entry \<Rightarrow> int" where
  "start_page e = snd (snd e)"

text \<open>\<^verbatim>\<open>toc_info[i]\<close> for an index that is never negative.\<close>

definition get_item :: "'a list \<Rightarrow> nat \<Rightarrow> py_error + 'a" where
  "get_item xs i = (if i < length xs then Inr (xs ! i) else Inl IndexError)"

text \<open>
  The \<^verbatim>\<open>while next_item[0] != level\<close> loop of lines 76 to 78: the index is incremented
  first and the list is read afterwards, so the read may raise.
\<close>

function scan_next :: "toc_entry list \<Rightarrow> int \<Rightarrow> nat \<Rightarrow> toc_entry \<Rightarrow> py_error + toc_entry" where
  "scan_next toc_info lvl curr_index next_item =
     (if level next_item \<noteq> lvl then
        (case get_item toc_info (curr_index + 1) of
           Inl e \<Rightarrow> Inl e
         | Inr it \<Rightarrow> scan_next toc_info lvl (curr_index + 1) it)
      else Inr next_item)"
  by pat_completeness auto
termination
  by (relation "measure (\<lambda>(toc_info, lvl, curr_index, next_item). length toc_info - curr_index)")
     (auto simp: get_item_def split: if_splits)

text \<open>The \<^verbatim>\<open>try\<close> block of lines 73 to 80; \<^verbatim>\<open>except IndexError\<close> gives \<^verbatim>\<open>None\<close>.\<close>

definition find_next_item :: "toc_entry list \<Rightarrow> nat \<Rightarrow> int \<Rightarrow> toc_entry option" where
  "find_next_item toc_info index lvl =
     (case get_item toc_info (index + 1) of
        Inl e \<Rightarrow> None
      | Inr next_item \<Rightarrow>
          (case scan_next toc_info lvl index next_item of
             Inl e \<Rightarrow> None
           | Inr it \<Rightarrow> Some it))"

text \<open>Lines 81 to 83: the section of the entry at \<open>index\<close>.\<close>

definition make_section :: "toc_entry list \<Rightarrow> int \<Rightarrow> nat \<Rightarrow> toc_entry \<Rightarrow> toc_section" where
  "make_section toc_info max_page index entry =
     (let next_item = find_next_item toc_info index (level entry);
          last_pg = (case next_item of None \<Rightarrow> max_page | Some it \<Rightarrow> start_page it - 2);
          pgn = \<lparr>first = start_page entry - 1, last_page = last_pg,
                 current = start_page entry - 1\<rparr>
      in Section (fst (snd entry)) pgn [])"

text \<open>\<^verbatim>\<open>Section.append\<close>: the new section becomes the last child.\<close>

fun append_child :: "toc_section \<Rightarrow> toc_section \<Rightarrow> toc_section" where
  "append_child (Section t p cs) sect = Section t p (cs @ [sect])"

text \<open>
  The \<^verbatim>\<open>while True\<close> loop of lines 89 to 95. The source mutates the node it reaches; here
  the path of last children is rebuilt around the changed node. \<^verbatim>\<open>children[-1]\<close> of an
  empty list raises.
\<close>

function walk :: "toc_section \<Rightarrow> int \<Rightarrow> toc_section \<Rightarrow> py_error + toc_section" where
  "walk parent parent_lvl sect =
     (if parent_lvl > 1 then
        (if children parent = [] then Inl IndexError
         else (case walk (last (children parent)) (parent_lvl - 1) sect of
                 Inl e \<Rightarrow> Inl e
               | Inr p \<Rightarrow> Inr (Section (title parent) (pager parent)
                                  (butlast (children parent) @ [p]))))
      else Inr (append_child parent sect))"
  by pat_completeness auto
termination
  by (relation "measure (\<lambda>(parent, parent_lvl, sect). nat parent_lvl)") auto

text \<open>Lines 84 to 95: where the new section goes.\<close>

definition attach :: "toc_section \<Rightarrow> int \<Rightarrow> toc_section \<Rightarrow> py_error + toc_section" where
  "attach root_item lvl sect =
     (if lvl = 1 then Inr (append_child root_item sect)
      else if children root_item = [] then Inl IndexError
      else (case walk (last (children root_item)) (lvl - 1) sect of
              Inl e \<Rightarrow> Inl e
            | Inr p \<Rightarrow> Inr (Section (title root_item) (pager root_item)
                               (butlast (children root_item) @ [p]))))"

text \<open>The \<^verbatim>\<open>for\<close> loop over \<^verbatim>\<open>enumerate(toc_info)\<close>; an exception leaves the loop.\<close>

fun toc_loop :: "toc_entry list \<Rightarrow> int \<Rightarrow> (nat \<times> toc_entry) list \<Rightarrow> toc_section \<Rightarrow> py_error + toc_section" where
  "toc_loop toc_info max_page [] root_item = Inr root_item"
| "toc_loop toc_info max_page ((index, entry) # rest) root_item =
     (case attach root_item (level entry) (make_section toc_info max_page index entry) of
        Inl e \<Rightarrow> Inl e
      | Inr r \<Rightarrow> toc_loop toc_info max_page rest r)"

definition toc_tree :: "toc_entry list \<Rightarrow> string \<Rightarrow> nat \<Rightarrow> py_error + toc_section" where
  "toc_tree toc_info doc_title n_pages =
     (let max_page = int n_pages - 1;
          root_item = Section doc_title \<lparr>first = 0, last_page = int n_pages - 1, current = 0\<rparr> []
      in toc_loop toc_info max_page (enumerate 0 toc_info) root_item)"

subsection \<open>Reading the tree\<close>

text \<open>The section reached from \<open>s\<close> by a path of child indices, if there is one.\<close>

fun descend :: "toc_section \<Rightarrow> nat list \<Rightarrow> toc_section option" where
  "descend s [] = Some s"
| "descend s (i # path) =
     (if i < length (children s) then descend (children s ! i) path else None)"

definition result_at :: "py_error + toc_section \<Rightarrow> nat list \<Rightarrow> toc_section option" where
  "result_at res path = (case res of Inl e \<Rightarrow> None | Inr root_item \<Rightarrow> descend root_item path)"

definition page_range :: "toc_section \<Rightarrow> int \<times> int" where
  "page_range s = (first (pager s), last_page (pager s))"

text \<open>Every section of a tree, the root first, and what it carries apart from its children.\<close>

fun sections :: "toc_section \<Rightarrow> toc_section list" where
  "sections (Section t p cs) = Section t p cs # concat (map sections cs)"

definition info :: "toc_section \<Rightarrow> string \<times> pager" where
  "info s = (title s, pager s)"

text \<open>The number of sections on the path of last children below \<open>s\<close>.\<close>

function spine_depth :: "toc_section \<Rightarrow> nat" where
  "spine_depth s = (if children s = [] then 0 else Suc (spine_depth (last (children s))))"
  by pat_completeness auto
termination
proof (relation "measure size")
  show "wf (measure (size :: toc_section \<Rightarrow> nat))" by simp
next
  fix s :: toc_section
  assume ne: "children s \<noteq> []"
  obtain t p cs where s: "s = Section t p cs" by (cases s)
  from ne s have "last cs \<in> set cs" by simp
  then have "size (last cs) \<le> size_list size cs" by (simp add: size_list_estimation')
  with s show "(last (children s), s) \<in> measure size" by simp
qed

subsection \<open>The outlines the walk is written for\<close>

text \<open>
  Levels that start at 1 and never rise by more than one from an entry to the next:
  \<open>nested_from d\<close> reads the levels that follow an entry of level \<open>d\<close>.
\<close>

fun nested_from :: "int \<Rightarrow> int list \<Rightarrow> bool" where
  "nested_from d [] = True"
| "nested_from d (l # ls) = (1 \<le> l \<and> l \<le> d + 1 \<and> nested_from l ls)"

definition well_nested :: "toc_entry list \<Rightarrow> bool" where
  "well_nested toc_info = nested_from 0 (map level toc_info)"

subsection \<open>The last page in the words of the specification\<close>

text \<open>
  The index of the next entry after \<open>index\<close> whose level equals \<open>lvl\<close>, and the last page
  that follows from it: two pages before that entry's start page, or the last page of
  the document when there is no such entry.
\<close>

definition next_same_level :: "toc_entry list \<Rightarrow> nat \<Rightarrow> int \<Rightarrow> nat option" where
  "next_same_level toc_info index lvl =
     find (\<lambda>j. level (toc_info ! j) = lvl) [Suc index ..< length toc_info]"

definition spec_last_page :: "toc_entry list \<Rightarrow> nat \<Rightarrow> nat \<Rightarrow> int" where
  "spec_last_page toc_info n_pages index =
     (case next_same_level toc_info index (level (toc_info ! index)) of
        None \<Rightarrow> int n_pages - 1
      | Some j \<Rightarrow> start_page (toc_info ! j) - 2)"

definition spec_info :: "toc_entry list \<Rightarrow> nat \<Rightarrow> nat \<Rightarrow> string \<times> pager" where
  "spec_info toc_info n_pages index =
     (fst (snd (toc_info ! index)),
      \<lparr>first = start_page (toc_info ! index) - 1,
       last_page = spec_last_page toc_info n_pages index,
       current = start_page (toc_info ! index) - 1\<rparr>)"

subsection \<open>Page ranges\<close>

text \<open>The pager invariant, and a child's range lying within its parent's.\<close>

definition pager_ok :: "pager \<Rightarrow> bool" where
  "pager_ok p = (first p \<le> current p \<and> current p \<le> last_page p)"

definition all_pagers_ok :: "toc_section \<Rightarrow> bool" where
  "all_pagers_ok root_item = list_all (\<lambda>s. pager_ok (pager s)) (sections root_item)"

definition within :: "pager \<Rightarrow> pager \<Rightarrow> bool" where
  "within c p = (first p \<le> first c \<and> first c \<le> last_page p
                  \<and> first p \<le> last_page c \<and> last_page c \<le> last_page p)"

definition starts_within :: "pager \<Rightarrow> pager \<Rightarrow> bool" where
  "starts_within c p = (first p \<le> first c)"

text \<open>\<open>children_ok R\<close>: every child in the tree stands in \<open>R\<close> to its parent.\<close>

fun children_ok :: "(pager \<Rightarrow> pager \<Rightarrow> bool) \<Rightarrow> toc_section \<Rightarrow> bool" where
  "children_ok R (Section t p cs) = list_all (\<lambda>c. R (pager c) p \<and> children_ok R c) cs"

text \<open>
  Conditions on the start pages of an outline: none beyond the document, entries of the
  same level on strictly increasing pages, and pages from 1 on in document order.
\<close>

definition starts_bounded :: "toc_entry list \<Rightarrow> nat \<Rightarrow> bool" where
  "starts_bounded toc_info n_pages = list_all (\<lambda>e. start_page e \<le> int n_pages) toc_info"

fun same_level_increasing :: "toc_entry list \<Rightarrow> bool" where
  "same_level_increasing [] = True"
| "same_level_increasing (e # es) =
     (list_all (\<lambda>e'. level e' = level e \<longrightarrow> start_page e < start_page e') es
      \<and> same_level_increasing es)"

definition starts_sorted :: "toc_entry list \<Rightarrow> bool" where
  "starts_sorted toc_info =
     (sorted (map start_page toc_info) \<and> list_all (\<lambda>e. 1 \<le> start_page e) toc_info)"

definition infos :: "toc_section \<Rightarrow> (string \<times> pager) multiset" where
  "infos s = mset (map info (sections s))"

section \<open>Structured navigation in the book viewer\<close>

text \<open>
  \<^verbatim>\<open>bookworm/gui/book_viewer/__init__.py\<close>, class \<^verbatim>\<open>BookViewerWindow\<close>. The window state
  that the methods below read and write: the insertion point of the text control, the
  private attribute \<^verbatim>\<open>__latest_structured_navigation_position\<close> (written at lines 238
  and 588 only), the two speech settings that \<^verbatim>\<open>mute_page_and_section_speech\<close> saves and
  restores, the reader's active section, and what the window has emitted so far (bell,
  announcements, sounds, signals), in order.
\<close>

datatype event =
    Bell
  | Announce string
  | Play_structured_navigation
  | Play_navigation
  | Reading_position_change int string
  | Set_focus_content

text \<open>A result of the search: \<^verbatim>\<open>((start, stop), actual_element_type)\<close>.\<close>

type_synonym 'k position = "(int \<times> int) \<times> 'k"

record ('k, 's) window =
  insertion_point :: int
  latest_structured_navigation_position :: "(int \<times> 'k position) option"
  speak_page_number :: bool
  speak_section_title :: bool
  active_section :: "'s option"
  events :: "event list"

text \<open>
  What the window calls and does not define: the reader (\<^verbatim>\<open>ready\<close>,
  \<^verbatim>\<open>get_semantic_element\<close>, \<^verbatim>\<open>go_to_first_of_section\<close>), the table
  \<^verbatim>\<open>SEMANTIC_ELEMENT_OUTPUT_OPTIONS\<close> of labels and the two output flags, and the text
  control (\<^verbatim>\<open>GetContainingLine\<close>, \<^verbatim>\<open>GetRange\<close>). The reader's move to the first page of
  a section reaches the window through its public methods, which set the insertion
  point and emit events; it is given here by the insertion point and the events it
  leaves.
\<close>

record ('k, 's) viewer_env =
  reader_ready :: bool
  get_semantic_element :: "'k \<Rightarrow> bool \<Rightarrow> int \<Rightarrow> 'k position option"
  output_options :: "'k \<Rightarrow> string \<times> bool \<times> bool"
  get_containing_line :: "int \<Rightarrow> int \<times> int"
  get_range :: "int \<Rightarrow> int \<Rightarrow> string"
  go_to_first_of_section :: "('k, 's) window \<Rightarrow> int \<times> event list"

text \<open>\<^verbatim>\<open>BookViewerWindow.__init__\<close>, line 238, with an empty text control.\<close>

definition new_window :: "bool \<Rightarrow> bool \<Rightarrow> ('k, 's) window" where
  "new_window opsc ossc =
     \<lparr>insertion_point = 0, latest_structured_navigation_position = None,
      speak_page_number = opsc, speak_section_title = ossc,
      active_section = None, events = []\<rparr>"

text \<open>\<^verbatim>\<open>set_insertion_point\<close>, lines 753 to 756.\<close>

definition set_insertion_point :: "int \<Rightarrow> ('k, 's) window \<Rightarrow> ('k, 's) window" where
  "set_insertion_point to w = w\<lparr>insertion_point := to\<rparr>"

text \<open>Lines 588 to 613: a result that differs from the remembered one.\<close>

definition go_to_element ::
  "('k, 's) viewer_env \<Rightarrow> int \<times> 'k position \<Rightarrow> ('k, 's) window \<Rightarrow> ('k, 's) window" where
  "go_to_element env pos_info w =
     (let start = fst (fst (snd pos_info));
          stop = snd (fst (snd pos_info));
          actual_element_type = snd (snd pos_info);
          element_label = fst (output_options env actual_element_type);
          should_speak_whole_text = fst (snd (output_options env actual_element_type));
          move_to_start_of_line = snd (snd (output_options env actual_element_type));
          text_range = (if should_speak_whole_text then get_containing_line env (start + 1)
                        else (start, stop));
          text = get_range env (fst text_range) (snd text_range);
          msg = text @ '': '' @ element_label;
          target_position = (if \<not> move_to_start_of_line then start
                             else fst (get_containing_line env (stop - 1)));
          w1 = w\<lparr>latest_structured_navigation_position := Some pos_info\<rparr>;
          w2 = set_insertion_point target_position w1
      in w2\<lparr>events := events w2 @ [Announce msg, Play_structured_navigation,
                                    Reading_position_change start element_label]\<rparr>)"

text \<open>Lines 614 to 620: nothing found.\<close>

definition no_element_msg :: "('k, 's) viewer_env \<Rightarrow> 'k \<Rightarrow> bool \<Rightarrow> string" where
  "no_element_msg env element_type forward =
     (if forward then ''No next '' else ''No previous '') @ fst (output_options env element_type)"

definition announce_no_element ::
  "('k, 's) viewer_env \<Rightarrow> 'k \<Rightarrow> bool \<Rightarrow> ('k, 's) window \<Rightarrow> ('k, 's) window" where
  "announce_no_element env element_type forward w =
     w\<lparr>events := events w @ [Announce (no_element_msg env element_type forward)]\<rparr>"

text \<open>
  \<^verbatim>\<open>navigate_to_structural_element\<close>, lines 572 to 620. The method calls itself after it
  has moved the insertion point to the end of the remembered range; nothing in it bounds
  the number of these calls, so a call that never returns has the value \<open>None\<close>.
\<close>

partial_function (option) navigate_to_structural_element ::
  "('k, 's) viewer_env \<Rightarrow> 'k \<Rightarrow> bool \<Rightarrow> ('k, 's) window \<Rightarrow> ('k, 's) window option" where
  "navigate_to_structural_element env element_type forward w =
     (if \<not> reader_ready env then Some (w\<lparr>events := events w @ [Bell]\<rparr>)
      else
        (case get_semantic_element env element_type forward (insertion_point w) of
           Some pos \<Rightarrow>
             (if latest_structured_navigation_position w = Some (insertion_point w, pos)
              then navigate_to_structural_element env element_type forward
                     (set_insertion_point (snd (fst pos)) w)
              else Some (go_to_element env (insertion_point w, pos) w))
         | None \<Rightarrow> Some (announce_no_element env element_type forward w)))"

declare navigate_to_structural_element.simps [code]

text \<open>\<^verbatim>\<open>onTOCItemClick\<close>, lines 534 to 539, inside \<^verbatim>\<open>mute_page_and_section_speech\<close>.\<close>

definition onTOCItemClick ::
  "('k, 's) viewer_env \<Rightarrow> 's \<Rightarrow> ('k, 's) window \<Rightarrow> ('k, 's) window" where
  "onTOCItemClick env item_data w =
     (let opsc = speak_page_number w;
          ossc = speak_section_title w;
          w1 = w\<lparr>speak_page_number := False, speak_section_title := False\<rparr>;
          w2 = w1\<lparr>active_section := Some item_data\<rparr>;
          moved = go_to_first_of_section env w2;
          w3 = w2\<lparr>insertion_point := fst moved, events := events w2 @ snd moved\<rparr>;
          w4 = w3\<lparr>events := events w3 @ [Set_focus_content]\<rparr>
      in w4\<lparr>speak_page_number := opsc, speak_section_title := ossc\<rparr>)"

text \<open>\<^verbatim>\<open>go_to_position\<close>, lines 789 to 798: an explicit move of the cursor.\<close>

definition go_to_position ::
  "('k, 's) viewer_env \<Rightarrow> int \<Rightarrow> int option \<Rightarrow> ('k, 's) window \<Rightarrow> ('k, 's) window" where
  "go_to_position env start_pos end_pos w =
     (let line_range = (case end_pos of None \<Rightarrow> get_containing_line env start_pos
                                     | Some e \<Rightarrow> (start_pos, e));
          line_text = get_range env (fst line_range) (snd line_range);
          w1 = set_insertion_point (fst line_range) w
      in w1\<lparr>events := events w1 @ [Play_navigation, Announce line_text]\<rparr>)"

text \<open>A number of presses of the same navigation key, one call each.\<close>

fun presses ::
  "('k, 's) viewer_env \<Rightarrow> 'k \<Rightarrow> bool \<Rightarrow> nat \<Rightarrow> ('k, 's) window \<Rightarrow> ('k, 's) window option" where
  "presses env element_type forward 0 w = Some w"
| "presses env element_type forward (Suc n) w =
     (case navigate_to_structural_element env element_type forward w of
        None \<Rightarrow> None
      | Some w1 \<Rightarrow> presses env element_type forward n w1)"

text \<open>The last thing the window did was to announce that there is no such element.\<close>

definition reported_none :: "('k, 's) viewer_env \<Rightarrow> 'k \<Rightarrow> bool \<Rightarrow> ('k, 's) window \<Rightarrow> bool" where
  "reported_none env element_type forward w =
     (events w \<noteq> [] \<and> last (events w) = Announce (no_element_msg env element_type forward))"

subsection \<open>The search for a semantic element\<close>

text \<open>
  Modelled from the spec: \<^verbatim>\<open>EBookReader.get_semantic_element\<close> (module \<^verbatim>\<open>bookworm.reader\<close>)
  is not among the sources. The specification's \<^verbatim>\<open>locate\<close>: the document is a sequence of
  elements \<^verbatim>\<open>(kind, start, stop)\<close> in document order; the search returns the nearest
  element of the requested kind, or of its family, strictly after the position when going
  forward and strictly before it when going backward, and \<^verbatim>\<open>None\<close> when there is none.
  An element lies strictly after a position when it starts after it, and strictly before
  a position when it stops before it. \<open>family requested actual\<close> says which kinds a
  request accepts.
\<close>

type_synonym 'k element = "'k \<times> int \<times> int"

definition qualifies :: "('k \<Rightarrow> 'k \<Rightarrow> bool) \<Rightarrow> 'k \<Rightarrow> bool \<Rightarrow> int \<Rightarrow> 'k element \<Rightarrow> bool" where
  "qualifies family element_kind forward from_position el =
     (family element_kind (fst el)
      \<and> (if forward then from_position < fst (snd el) else snd (snd el) < from_position))"

definition locate ::
  "('k \<Rightarrow> 'k \<Rightarrow> bool) \<Rightarrow> 'k element list \<Rightarrow> 'k \<Rightarrow> bool \<Rightarrow> int \<Rightarrow> 'k position option" where
  "locate family elements element_kind forward from_position =
     map_option (\<lambda>el. (snd el, fst el))
       (find (qualifies family element_kind forward from_position)
          (if forward then elements else rev elements))"

text \<open>A viewer whose reader is ready and searches the given elements.\<close>

definition reading ::
  "('k \<Rightarrow> 'k \<Rightarrow> bool) \<Rightarrow> 'k element list \<Rightarrow> ('k \<Rightarrow> string \<times> bool \<times> bool) \<Rightarrow> (int \<Rightarrow> int \<times> int)
   \<Rightarrow> (int \<Rightarrow> int \<Rightarrow> string) \<Rightarrow> ('k, 's) viewer_env" where
  "reading family elements options line_of text_of =
     \<lparr>reader_ready = True, get_semantic_element = locate family elements,
      output_options = options, get_containing_line = line_of, get_range = text_of,
      go_to_first_of_section = (\<lambda>w. (0, []))\<rparr>"



text \<open>The number of elements that a forward search from \<open>pos\<close> can still find.\<close>

definition remaining :: "('k \<Rightarrow> 'k \<Rightarrow> bool) \<Rightarrow> 'k element list \<Rightarrow> 'k \<Rightarrow> int \<Rightarrow> nat" where
  "remaining family elements k pos = length (filter (qualifies family k True pos) elements)"


subsection \<open>Small documents\<close>

text \<open>
  Modelled from the spec: some of the kinds of semantic elements it names
  (\<^verbatim>\<open>SemanticElementType\<close> of \<^verbatim>\<open>bookworm.structured_text\<close> is not among the sources), a
  text control that holds a single line of a hundred characters, and two rows for the
  table of output options: one leaves the cursor at the start of the element, the other
  moves it to the start of the line.
\<close>

datatype semantic_element_type = HEADING | LINK | TABLE | QUOTE | LIST

definition one_line :: "int \<Rightarrow> int \<times> int" where
  "one_line pos = (0, 100)"

definition some_text :: "int \<Rightarrow> int \<Rightarrow> string" where
  "some_text start stop = ''text''"

definition to_element_start :: "semantic_element_type \<Rightarrow> string \<times> bool \<times> bool" where
  "to_element_start k = (''Link'', False, False)"

definition to_line_start :: "semantic_element_type \<Rightarrow> string \<times> bool \<times> bool" where
  "to_line_start k = (''Link'', False, True)"

text \<open>
  Two links on the one line, with the table that moves the cursor to the start of the
  line; and the windows among which repeated presses of the key for the next link then
  move: the cursor at the start of the line, one of three remembered results, and no
  announcement that the links have run out.
\<close>

definition two_links :: "(semantic_element_type, unit) viewer_env" where
  "two_links = reading (=) [(LINK, 1, 2), (LINK, 5, 10)] to_line_start one_line some_text"

definition cycling :: "(semantic_element_type, unit) window \<Rightarrow> bool" where
  "cycling w = (insertion_point w = 0
     \<and> latest_structured_navigation_position w
         \<in> {Some (3, (5, 10), LINK), Some (0, (1, 2), LINK), Some (2, (5, 10), LINK)}
     \<and> \<not> reported_none two_links LINK True w)"

section \<open>The Piper speech engine\<close>

text \<open>
  \<^verbatim>\<open>bookworm/platforms/win32/speech_engines/piper/__init__.py\<close>, method
  \<^verbatim>\<open>PiperSpeechEngine.speak_utterance\<close>, with the three tables of lines 24 to 49.
\<close>

datatype pause_spec =
  Pause_null | Pause_extra_small | Pause_small | Pause_medium | Pause_large | Pause_extra_large

datatype rate_spec =
  Rate_not_set | Rate_extra_slow | Rate_slow | Rate_medium | Rate_fast | Rate_extra_fast

datatype volume_spec =
  Volume_not_set | Volume_silent | Volume_extra_soft | Volume_soft | Volume_medium
  | Volume_loud | Volume_extra_loud | Volume_default

fun PAUSE_VALUE_MAP :: "pause_spec \<Rightarrow> int" where
  "PAUSE_VALUE_MAP Pause_null = 10"
| "PAUSE_VALUE_MAP Pause_extra_small = 100"
| "PAUSE_VALUE_MAP Pause_small = 250"
| "PAUSE_VALUE_MAP Pause_medium = 500"
| "PAUSE_VALUE_MAP Pause_large = 750"
| "PAUSE_VALUE_MAP Pause_extra_large = 1000"

fun RATE_VALUE_MAP :: "rate_spec \<Rightarrow> int option" where
  "RATE_VALUE_MAP Rate_not_set = None"
| "RATE_VALUE_MAP Rate_extra_slow = Some 20"
| "RATE_VALUE_MAP Rate_slow = Some 40"
| "RATE_VALUE_MAP Rate_medium = Some 60"
| "RATE_VALUE_MAP Rate_fast = Some 80"
| "RATE_VALUE_MAP Rate_extra_fast = Some 100"

text \<open>\<^verbatim>\<open>DEFAULT_VOLUME\<close> comes from \<^verbatim>\<open>tts_system\<close>, which is not among the sources.\<close>

fun VOLUME_VALUE_MAP :: "int \<Rightarrow> volume_spec \<Rightarrow> int option" where
  "VOLUME_VALUE_MAP DEFAULT_VOLUME Volume_not_set = None"
| "VOLUME_VALUE_MAP DEFAULT_VOLUME Volume_silent = Some 1"
| "VOLUME_VALUE_MAP DEFAULT_VOLUME Volume_extra_soft = Some 10"
| "VOLUME_VALUE_MAP DEFAULT_VOLUME Volume_soft = Some 25"
| "VOLUME_VALUE_MAP DEFAULT_VOLUME Volume_medium = Some 50"
| "VOLUME_VALUE_MAP DEFAULT_VOLUME Volume_loud = Some 75"
| "VOLUME_VALUE_MAP DEFAULT_VOLUME Volume_extra_loud = Some 100"
| "VOLUME_VALUE_MAP DEFAULT_VOLUME Volume_default = Some DEFAULT_VOLUME"

text \<open>
  The content of an element is a key of the table or a value given as it is:
  \<^verbatim>\<open>MAP.get(content, content)\<close>.
\<close>

datatype pause_content = Pause_of pause_spec | Pause_ms int

datatype rate_content = Rate_of rate_spec | Rate_value int | Rate_None

datatype volume_content = Volume_of volume_spec | Volume_value int | Volume_None

fun pause_value :: "pause_content \<Rightarrow> int" where
  "pause_value (Pause_of sp) = PAUSE_VALUE_MAP sp"
| "pause_value (Pause_ms n) = n"

fun rate_value :: "rate_content \<Rightarrow> int option" where
  "rate_value (Rate_of sp) = RATE_VALUE_MAP sp"
| "rate_value (Rate_value n) = Some n"
| "rate_value Rate_None = None"

fun volume_value :: "int \<Rightarrow> volume_content \<Rightarrow> int option" where
  "volume_value DEFAULT_VOLUME (Volume_of sp) = VOLUME_VALUE_MAP DEFAULT_VOLUME sp"
| "volume_value DEFAULT_VOLUME (Volume_value n) = Some n"
| "volume_value DEFAULT_VOLUME Volume_None = None"

text \<open>An element of an utterance: its kind with its content.\<close>

datatype speech_element =
    Text string
  | Sentence string
  | Bookmark string
  | Pause pause_content
  | Start_voice string
  | End_voice
  | Start_prosody "int option" rate_content volume_content
  | End_prosody
  | Audio string
  | Other_kind

datatype 'task queue_item =
    ProcessPiperTask "'task option"
  | AudioFileTask string
  | DoneSpeaking

text \<open>
  The text to speech system has an attribute \<^verbatim>\<open>speech_options\<close> and whatever else it
  keeps. Its class is not among the sources: its properties and the functions that make
  tasks are taken as they come.
\<close>

record 'o tts_system =
  speech_options :: 'o

record ('o, 'm, 'task) tts_api =
  get_voice :: "('o, 'm) tts_system_scheme \<Rightarrow> string option"
  set_voice :: "string \<Rightarrow> ('o, 'm) tts_system_scheme \<Rightarrow> ('o, 'm) tts_system_scheme"
  get_pitch :: "('o, 'm) tts_system_scheme \<Rightarrow> int option"
  set_pitch :: "int \<Rightarrow> ('o, 'm) tts_system_scheme \<Rightarrow> ('o, 'm) tts_system_scheme"
  get_rate :: "('o, 'm) tts_system_scheme \<Rightarrow> int option"
  set_rate :: "int \<Rightarrow> ('o, 'm) tts_system_scheme \<Rightarrow> ('o, 'm) tts_system_scheme"
  get_volume :: "('o, 'm) tts_system_scheme \<Rightarrow> int option"
  set_volume :: "int \<Rightarrow> ('o, 'm) tts_system_scheme \<Rightarrow> ('o, 'm) tts_system_scheme"
  create_speech_task :: "('o, 'm) tts_system_scheme \<Rightarrow> string \<Rightarrow> 'task"
  create_bookmark_task :: "('o, 'm) tts_system_scheme \<Rightarrow> string \<Rightarrow> 'task"
  create_break_task :: "('o, 'm) tts_system_scheme \<Rightarrow> int \<Rightarrow> 'task"
  audio_uri_to_filepath :: "string \<Rightarrow> string"
  DEFAULT_VOLUME :: int

record ('o, 'm, 'task) engine =
  tts :: "('o, 'm) tts_system_scheme"
  bgQueue :: "'task queue_item list"
  silence_event :: bool

text \<open>\<^verbatim>\<open>string.punctuation + string.whitespace\<close>, by character code, and \<^verbatim>\<open>str.strip\<close>.\<close>

definition punctuation_or_whitespace :: "char \<Rightarrow> bool" where
  "punctuation_or_whitespace c =
     (let n = (of_char c :: nat)
      in (33 \<le> n \<and> n \<le> 47) \<or> (58 \<le> n \<and> n \<le> 64) \<or> (91 \<le> n \<and> n \<le> 96)
         \<or> (123 \<le> n \<and> n \<le> 126) \<or> n = 32 \<or> (9 \<le> n \<and> n \<le> 13))"

definition strip :: "(char \<Rightarrow> bool) \<Rightarrow> string \<Rightarrow> string" where
  "strip chars content = rev (dropWhile chars (rev (dropWhile chars content)))"

definition put :: "'task queue_item \<Rightarrow> ('o, 'm, 'task) engine \<Rightarrow> ('o, 'm, 'task) engine" where
  "put item eng = eng\<lparr>bgQueue := bgQueue eng @ [item]\<rparr>"

text \<open>Python's truth value of \<^verbatim>\<open>old_voice\<close>: neither \<^verbatim>\<open>None\<close> nor empty.\<close>

fun truthy :: "string option \<Rightarrow> bool" where
  "truthy None = False"
| "truthy (Some v) = (v \<noteq> [])"

text \<open>
  One round of the loop of lines 241 to 285, on the engine and the two local variables
  \<^verbatim>\<open>old_voice\<close> and \<^verbatim>\<open>old_prosody\<close>.
\<close>

type_synonym prosody = "int option \<times> int option \<times> int option"

fun speak_element ::
  "('o, 'm, 'task) tts_api \<Rightarrow> ('o, 'm, 'task) engine \<times> string option \<times> prosody \<Rightarrow> speech_element
   \<Rightarrow> ('o, 'm, 'task) engine \<times> string option \<times> prosody" where
  "speak_element api (eng, old_voice, old_prosody) (Text content) =
     (if strip punctuation_or_whitespace content = [] then (eng, old_voice, old_prosody)
      else (put (ProcessPiperTask (Some (create_speech_task api (tts eng) content))) eng,
            old_voice, old_prosody))"
| "speak_element api (eng, old_voice, old_prosody) (Sentence content) =
     (if strip punctuation_or_whitespace content = [] then (eng, old_voice, old_prosody)
      else (put (ProcessPiperTask (Some (create_speech_task api (tts eng) content))) eng,
            old_voice, old_prosody))"
| "speak_element api (eng, old_voice, old_prosody) (Bookmark content) =
     (put (ProcessPiperTask (Some (create_bookmark_task api (tts eng) content))) eng,
      old_voice, old_prosody)"
| "speak_element api (eng, old_voice, old_prosody) (Pause content) =
     (if pause_value content \<noteq> 0
      then (put (ProcessPiperTask (Some (create_break_task api (tts eng) (pause_value content)))) eng,
            old_voice, old_prosody)
      else (put (ProcessPiperTask None) eng, old_voice, old_prosody))"
| "speak_element api (eng, old_voice, old_prosody) (Start_voice voice_id) =
     (put (ProcessPiperTask None) (eng\<lparr>tts := set_voice api voice_id (tts eng)\<rparr>),
      get_voice api (tts eng), old_prosody)"
| "speak_element api (eng, old_voice, old_prosody) End_voice =
     (put (ProcessPiperTask None)
        (if truthy old_voice then eng\<lparr>tts := set_voice api (the old_voice) (tts eng)\<rparr> else eng),
      old_voice, old_prosody)"
| "speak_element api (eng, old_voice, old_prosody) (Start_prosody pitch rate volume) =
     (let t0 = tts eng;
          t1 = (case pitch of None \<Rightarrow> t0 | Some v \<Rightarrow> set_pitch api v t0);
          t2 = (case rate_value rate of None \<Rightarrow> t1 | Some v \<Rightarrow> set_rate api v t1);
          t3 = (case volume_value (DEFAULT_VOLUME api) volume of None \<Rightarrow> t2
                | Some v \<Rightarrow> set_volume api v t2)
      in (put (ProcessPiperTask None) (eng\<lparr>tts := t3\<rparr>),
          old_voice, (get_pitch api t0, get_rate api t0, get_volume api t0)))"
| "speak_element api (eng, old_voice, old_prosody) End_prosody =
     (let t0 = tts eng;
          t1 = (case fst old_prosody of None \<Rightarrow> t0 | Some v \<Rightarrow> set_pitch api v t0);
          t2 = (case fst (snd old_prosody) of None \<Rightarrow> t1 | Some v \<Rightarrow> set_rate api v t1);
          t3 = (case snd (snd old_prosody) of None \<Rightarrow> t2 | Some v \<Rightarrow> set_volume api v t2)
      in (put (ProcessPiperTask None) (eng\<lparr>tts := t3\<rparr>), old_voice, old_prosody))"
| "speak_element api (eng, old_voice, old_prosody) (Audio content) =
     (put (AudioFileTask (audio_uri_to_filepath api content)) eng, old_voice, old_prosody)"
| "speak_element api (eng, old_voice, old_prosody) Other_kind =
     (put (ProcessPiperTask None) eng, old_voice, old_prosody)"

text \<open>
  \<^verbatim>\<open>speak_utterance\<close>, lines 236 to 292. \<^verbatim>\<open>speech_options.copy()\<close> is the value of the
  attribute on entry.
\<close>

definition speak_utterance ::
  "('o, 'm, 'task) tts_api \<Rightarrow> speech_element list \<Rightarrow> ('o, 'm, 'task) engine
   \<Rightarrow> ('o, 'm, 'task) engine" where
  "speak_utterance api utterance eng =
     (let eng1 = eng\<lparr>silence_event := False\<rparr>;
          old_speech_options = speech_options (tts eng1);
          eng2 = fst (foldl (speak_element api) (eng1, None, (None, None, None)) utterance);
          eng3 = put DoneSpeaking eng2
      in eng3\<lparr>tts := (tts eng3)\<lparr>speech_options := old_speech_options\<rparr>\<rparr>)"

text \<open>
  A text to speech system that keeps nothing but the identifier of its voice in
  \<^verbatim>\<open>speech_options\<close>, for running an utterance.
\<close>

definition voice_only_api :: "(string, unit, string) tts_api" where
  "voice_only_api =
     \<lparr>get_voice = (\<lambda>t. Some (speech_options t)),
      set_voice = (\<lambda>v t. t\<lparr>speech_options := v\<rparr>),
      get_pitch = (\<lambda>t. None), set_pitch = (\<lambda>v t. t),
      get_rate = (\<lambda>t. None), set_rate = (\<lambda>v t. t),
      get_volume = (\<lambda>t. None), set_volume = (\<lambda>v t. t),
      create_speech_task = (\<lambda>t content. speech_options t @ '': '' @ content),
      create_bookmark_task = (\<lambda>t content. content),
      create_break_task = (\<lambda>t ms. ''break''),
      audio_uri_to_filepath = (\<lambda>uri. uri),
      DEFAULT_VOLUME = 100\<rparr>"

section \<open>Properties of the table of contents\<close>

declare scan_next.simps [simp del] walk.simps [simp del] spine_depth.simps [simp del]

subsection \<open>The scan for the next entry of the same level\<close>


lemma scan_next_at:
  "c < length toc \<Longrightarrow>
   scan_next toc lvl c (toc ! c) =
     (case find (\<lambda>it. level it = lvl) (drop c toc) of None \<Rightarrow> Inl IndexError | Some it \<Rightarrow> Inr it)"
proof (induction "length toc - c" arbitrary: c)
  case 0
  then show ?case by simp
next
  case (Suc k)
  have d: "drop c toc = toc ! c # drop (Suc c) toc"
    using Suc.prems by (simp add: Cons_nth_drop_Suc)
  show ?case
  proof (cases "level (toc ! c) = lvl")
    case True
    then show ?thesis by (subst scan_next.simps) (simp add: d)
  next
    case False
    show ?thesis
    proof (cases "Suc c < length toc")
      case True
      with Suc.hyps have "k = length toc - Suc c" by simp
      from Suc.hyps(1) [OF this True] False True show ?thesis
        by (subst scan_next.simps) (simp add: d get_item_def)
    next
      case False
      with \<open>level (toc ! c) \<noteq> lvl\<close> Suc.prems show ?thesis
        by (subst scan_next.simps) (simp add: d get_item_def)
    qed
  qed
qed

lemma find_next_item_find:
  "find_next_item toc i lvl = find (\<lambda>it. level it = lvl) (drop (Suc i) toc)"
proof (cases "Suc i < length toc")
  case False
  then show ?thesis by (simp add: find_next_item_def get_item_def)
next
  case True
  have d: "drop (Suc i) toc = toc ! Suc i # drop (Suc (Suc i)) toc"
    using True by (simp add: Cons_nth_drop_Suc)
  show ?thesis
  proof (cases "level (toc ! Suc i) = lvl")
    case True
    with \<open>Suc i < length toc\<close> show ?thesis
      by (simp add: find_next_item_def get_item_def d scan_next.simps [of toc lvl i])
  next
    case False
    have "scan_next toc lvl i (toc ! Suc i) = scan_next toc lvl (Suc i) (toc ! Suc i)"
      using False True by (subst scan_next.simps) (simp add: get_item_def)
    with scan_next_at [OF True, of lvl] True show ?thesis
      by (simp add: find_next_item_def get_item_def split: option.splits)
  qed
qed

lemma drop_as_map_nth: "drop i xs = map ((!) xs) [i ..< length xs]"
  by (rule nth_equalityI) auto

lemma find_map_option: "find P (map f xs) = map_option f (find (\<lambda>x. P (f x)) xs)"
  by (induction xs) auto

lemma find_next_item_index:
  "find_next_item toc i lvl = map_option ((!) toc) (next_same_level toc i lvl)"
  by (simp add: find_next_item_find next_same_level_def drop_as_map_nth [of "Suc i"] find_map_option)

lemma info_make_section:
  "info (make_section toc (int n - 1) i (toc ! i)) = spec_info toc n i"
  by (simp add: info_def make_section_def spec_info_def spec_last_page_def find_next_item_index
      split: option.splits)

lemma infos_Section:
  "infos (Section t p cs) = add_mset (t, p) (\<Sum>c\<in>#mset cs. infos c)"
  by (induction cs rule: rev_induct) (simp_all add: infos_def info_def)

lemma infos_append_child: "infos (append_child parent sect) = infos parent + infos sect"
  by (cases parent) (simp add: infos_Section)

lemma infos_replace_last:
  assumes "children parent \<noteq> []"
  shows "infos (Section (title parent) (pager parent) (butlast (children parent) @ [c])) + infos (last (children parent))
       = infos parent + infos c"
proof -
  obtain t p cs where s: "parent = Section t p cs" by (cases parent)
  with assms have "cs = butlast cs @ [last cs]" by simp
  then have "mset cs = add_mset (last cs) (mset (butlast cs))"
    by (metis mset.simps(1) mset.simps(2) mset_append union_mset_add_mset_right add.right_neutral)
  then have "infos (Section t p cs) = add_mset (t, p) ((\<Sum>x\<in>#mset (butlast cs). infos x) + infos (last cs))"
    by (simp add: infos_Section)
  with s show ?thesis by (simp add: infos_Section)
qed

lemma walk_infos:
  "walk parent lvl sect = Inr p \<Longrightarrow> infos p = infos parent + infos sect"
proof (induction parent lvl sect arbitrary: p rule: walk.induct)
  case (1 parent lvl sect)
  show ?case
  proof (cases "lvl > 1")
    case False
    with "1.prems" show ?thesis by (auto simp: walk.simps [of parent] infos_append_child)
  next
    case True
    with "1.prems" have ne: "children parent \<noteq> []"
      by (auto simp: walk.simps [of parent] split: if_splits)
    with True "1.prems" obtain q where
      q: "walk (last (children parent)) (lvl - 1) sect = Inr q"
      and p: "p = Section (title parent) (pager parent) (butlast (children parent) @ [q])"
      by (auto simp: walk.simps [of parent] split: sum.splits)
    from "1.IH" [OF True ne q] have "infos q = infos (last (children parent)) + infos sect" .
    with infos_replace_last [OF ne, of q] p show ?thesis
      by (simp add: ac_simps)
  qed
qed

lemma attach_infos:
  "attach root_item lvl sect = Inr r \<Longrightarrow> infos r = infos root_item + infos sect"
proof (cases "lvl = 1")
  case True
  assume "attach root_item lvl sect = Inr r"
  with True show ?thesis by (auto simp: attach_def infos_append_child)
next
  case False
  assume a: "attach root_item lvl sect = Inr r"
  with False have ne: "children root_item \<noteq> []" by (auto simp: attach_def split: if_splits)
  with False a obtain q where
    q: "walk (last (children root_item)) (lvl - 1) sect = Inr q"
    and r: "r = Section (title root_item) (pager root_item) (butlast (children root_item) @ [q])"
    by (auto simp: attach_def split: sum.splits)
  from walk_infos [OF q] infos_replace_last [OF ne, of q] r show ?thesis
    by (simp add: ac_simps)
qed

lemma toc_loop_infos:
  "toc_loop toc mp ies root_item = Inr r \<Longrightarrow>
   infos r = infos root_item + mset (map (\<lambda>(i, e). info (make_section toc mp i e)) ies)"
proof (induction ies arbitrary: root_item)
  case Nil
  then show ?case by simp
next
  case (Cons ie ies)
  obtain i e where ie: "ie = (i, e)" by (cases ie)
  with Cons.prems obtain r1 where
    a: "attach root_item (level e) (make_section toc mp i e) = Inr r1"
    and l: "toc_loop toc mp ies r1 = Inr r"
    by (auto split: sum.splits)
  have "infos (make_section toc mp i e) = {#info (make_section toc mp i e)#}"
    by (simp add: make_section_def Let_def infos_Section info_def)
  with attach_infos [OF a] Cons.IH [OF l] ie show ?case by simp
qed

lemma enumerate_as_map: "enumerate 0 xs = map (\<lambda>i. (i, xs ! i)) [0 ..< length xs]"
  by (rule nth_equalityI) (auto simp: nth_enumerate_eq)

lemma toc_tree_infos:
  assumes "toc_tree toc t n = Inr r"
  shows "infos r = add_mset (t, \<lparr>first = 0, last_page = int n - 1, current = 0\<rparr>)
                     (mset (map (spec_info toc n) [0 ..< length toc]))"
proof -
  from assms have
    "toc_loop toc (int n - 1) (enumerate 0 toc)
       (Section t \<lparr>first = 0, last_page = int n - 1, current = 0\<rparr> []) = Inr r"
    by (simp add: toc_tree_def)
  from toc_loop_infos [OF this] show ?thesis
    by (simp add: enumerate_as_map comp_def info_make_section infos_Section)
qed

lemma spine_depth_leaf [simp]: "spine_depth (Section t p []) = 0"
  by (simp add: spine_depth.simps)

lemma spine_depth_snoc [simp]: "spine_depth (Section t p (cs @ [c])) = Suc (spine_depth c)"
  by (simp add: spine_depth.simps [of "Section t p (cs @ [c])"])









lemma in_sections_info: "s \<in> set (sections r) \<Longrightarrow> info s \<in># infos r"
  by (simp add: infos_def)

lemma same_level_increasing_nth:
  "same_level_increasing toc \<Longrightarrow> i < j \<Longrightarrow> j < length toc \<Longrightarrow>
   level (toc ! j) = level (toc ! i) \<Longrightarrow> start_page (toc ! i) < start_page (toc ! j)"
proof (induction toc arbitrary: i j)
  case Nil
  then show ?case by simp
next
  case (Cons e es)
  show ?case
  proof (cases i)
    case 0
    with Cons.prems obtain j' where j: "j = Suc j'" "j' < length es" by (cases j) auto
    with Cons.prems 0 show ?thesis by (auto simp: list_all_length)
  next
    case (Suc i')
    with Cons.prems obtain j' where j: "j = Suc j'" "j' < length es" "i' < j'" by (cases j) auto
    with Cons.prems Suc Cons.IH [of i' j'] show ?thesis by simp
  qed
qed

lemma next_same_level_Some:
  "next_same_level toc i lvl = Some j \<Longrightarrow> i < j \<and> j < length toc \<and> level (toc ! j) = lvl"
  by (auto simp: next_same_level_def find_Some_iff)

lemma spec_info_pager_ok:
  assumes "starts_bounded toc n" "same_level_increasing toc" "i < length toc"
  shows "pager_ok (snd (spec_info toc n i))"
proof (cases "next_same_level toc i (level (toc ! i))")
  case None
  from assms(1,3) have "start_page (toc ! i) \<le> int n"
    by (simp add: starts_bounded_def list_all_length)
  with None show ?thesis
    by (simp add: spec_info_def spec_last_page_def pager_ok_def)
next
  case (Some j)
  from next_same_level_Some [OF Some] same_level_increasing_nth [OF assms(2), of i j]
  have "start_page (toc ! i) < start_page (toc ! j)" by simp
  with Some show ?thesis by (simp add: spec_info_def spec_last_page_def pager_ok_def)
qed

lemma toc_tree_section_cases:
  assumes "toc_tree toc t n = Inr r" "s \<in> set (sections r)"
  shows "info s = (t, \<lparr>first = 0, last_page = int n - 1, current = 0\<rparr>)
       \<or> (\<exists>i<length toc. info s = spec_info toc n i)"
proof -
  from in_sections_info [OF assms(2)] toc_tree_infos [OF assms(1)] show ?thesis by auto
qed

lemma toc_tree_current:
  assumes "toc_tree toc t n = Inr r" "s \<in> set (sections r)"
  shows "current (pager s) = first (pager s)"
  using toc_tree_section_cases [OF assms] by (auto simp: info_def spec_info_def)

lemma toc_tree_all_pagers_ok:
  assumes "toc_tree toc t n = Inr r" "0 < n" "starts_bounded toc n" "same_level_increasing toc"
  shows "all_pagers_ok r"
  unfolding all_pagers_ok_def list_all_iff
proof
  fix s assume s: "s \<in> set (sections r)"
  from toc_tree_section_cases [OF assms(1) s] show "pager_ok (pager s)"
  proof
    assume "info s = (t, \<lparr>first = 0, last_page = int n - 1, current = 0\<rparr>)"
    with assms(2) show ?thesis by (auto simp: info_def pager_ok_def)
  next
    assume "\<exists>i<length toc. info s = spec_info toc n i"
    then obtain i where "i < length toc" "info s = spec_info toc n i" by blast
    with spec_info_pager_ok [OF assms(3,4), of i] show ?thesis
      by (metis info_def snd_conv)
  qed
qed

lemma children_ok_iff:
  "children_ok R s = (\<forall>c\<in>set (children s). R (pager c) (pager s) \<and> children_ok R c)"
  by (cases s) (simp add: list_all_iff)

lemma self_in_sections: "s \<in> set (sections s)"
  by (cases s) simp

lemma child_sections: "c \<in> set (children s) \<Longrightarrow> set (sections c) \<subseteq> set (sections s)"
  by (cases s) auto

lemma pager_append_child: "pager (append_child parent sect) = pager parent"
  by (cases parent) simp

lemma walk_pager: "walk parent lvl sect = Inr p \<Longrightarrow> pager p = pager parent"
  by (auto simp: walk.simps [of parent] pager_append_child split: if_splits sum.splits)

lemma children_ok_append_child:
  "children_ok R parent \<Longrightarrow> R (pager sect) (pager parent) \<Longrightarrow> children_ok R sect \<Longrightarrow>
   children_ok R (append_child parent sect)"
  by (cases parent) simp

lemma children_ok_replace_last:
  assumes "children_ok R parent" "children parent \<noteq> []" "children_ok R q"
    "pager q = pager (last (children parent))"
  shows "children_ok R (Section (title parent) (pager parent) (butlast (children parent) @ [q]))"
proof -
  have "set (butlast (children parent)) \<subseteq> set (children parent)"
    by (auto dest: in_set_butlastD)
  moreover from assms(2) have "last (children parent) \<in> set (children parent)" by simp
  ultimately show ?thesis
    using assms(1,3,4) by (subst children_ok_iff, subst (asm) children_ok_iff) auto
qed

lemma walk_starts_within:
  "walk parent lvl sect = Inr p \<Longrightarrow> children_ok starts_within parent \<Longrightarrow>
   children sect = [] \<Longrightarrow> \<forall>x\<in>set (sections parent). first (pager x) \<le> first (pager sect) \<Longrightarrow>
   children_ok starts_within p"
proof (induction parent lvl sect arbitrary: p rule: walk.induct)
  case (1 parent lvl sect)
  show ?case
  proof (cases "lvl > 1")
    case False
    with "1.prems"(1) have p: "p = append_child parent sect"
      by (simp add: walk.simps [of parent])
    from "1.prems"(4) self_in_sections [of parent]
    have "starts_within (pager sect) (pager parent)" by (simp add: starts_within_def)
    moreover from "1.prems"(3) have "children_ok starts_within sect"
      by (simp add: children_ok_iff [of _ sect])
    ultimately show ?thesis using "1.prems"(2) p
      by (simp add: children_ok_append_child)
  next
    case True
    with "1.prems"(1) have ne: "children parent \<noteq> []"
      by (auto simp: walk.simps [of parent] split: if_splits)
    with True "1.prems"(1) obtain q where
      q: "walk (last (children parent)) (lvl - 1) sect = Inr q"
      and p: "p = Section (title parent) (pager parent) (butlast (children parent) @ [q])"
      by (auto simp: walk.simps [of parent] split: sum.splits)
    from ne have l: "last (children parent) \<in> set (children parent)" by simp
    with "1.prems"(2) have c: "children_ok starts_within (last (children parent))"
      by (simp add: children_ok_iff [of _ parent])
    from child_sections [OF l] "1.prems"(4)
    have b: "\<forall>x\<in>set (sections (last (children parent))). first (pager x) \<le> first (pager sect)"
      by blast
    from "1.IH" [OF True ne q c "1.prems"(3) b] have "children_ok starts_within q" .
    from children_ok_replace_last [OF "1.prems"(2) ne this walk_pager [OF q]] p
    show ?thesis by simp
  qed
qed

lemma attach_starts_within:
  assumes "attach root_item lvl sect = Inr r" "children_ok starts_within root_item"
    "children sect = []" "\<forall>x\<in>set (sections root_item). first (pager x) \<le> first (pager sect)"
  shows "children_ok starts_within r"
proof (cases "lvl = 1")
  case True
  with assms(1) have r: "r = append_child root_item sect" by (simp add: attach_def)
  from assms(4) self_in_sections [of root_item]
  have "starts_within (pager sect) (pager root_item)" by (simp add: starts_within_def)
  moreover from assms(3) have "children_ok starts_within sect"
    by (simp add: children_ok_iff [of _ sect])
  ultimately show ?thesis using assms(2) r
    by (simp add: children_ok_append_child)
next
  case False
  with assms(1) have ne: "children root_item \<noteq> []" by (auto simp: attach_def split: if_splits)
  with False assms(1) obtain q where
    q: "walk (last (children root_item)) (lvl - 1) sect = Inr q"
    and r: "r = Section (title root_item) (pager root_item) (butlast (children root_item) @ [q])"
    by (auto simp: attach_def split: sum.splits)
  from ne have l: "last (children root_item) \<in> set (children root_item)" by simp
  with assms(2) have c: "children_ok starts_within (last (children root_item))"
    by (simp add: children_ok_iff [of _ root_item])
  from child_sections [OF l] assms(4)
  have "\<forall>x\<in>set (sections (last (children root_item))). first (pager x) \<le> first (pager sect)"
    by blast
  from walk_starts_within [OF q c assms(3) this] have "children_ok starts_within q" .
  from children_ok_replace_last [OF assms(2) ne this walk_pager [OF q]] r
  show ?thesis by simp
qed

lemma toc_loop_starts_within:
  "toc_loop toc mp ies root_item = Inr r \<Longrightarrow> children_ok starts_within root_item \<Longrightarrow>
   sorted (map (\<lambda>(i, e). start_page e) ies) \<Longrightarrow>
   \<forall>x\<in>#infos root_item. \<forall>(i, e)\<in>set ies. first (snd x) \<le> start_page e - 1 \<Longrightarrow>
   children_ok starts_within r"
proof (induction ies arbitrary: root_item)
  case Nil
  then show ?case by simp
next
  case (Cons ie ies)
  obtain i e where ie: "ie = (i, e)" by (cases ie)
  let ?sect = "make_section toc mp i e"
  from Cons.prems(1) ie obtain r1 where
    a: "attach root_item (level e) ?sect = Inr r1"
    and l: "toc_loop toc mp ies r1 = Inr r"
    by (auto split: sum.splits)
  have leaf: "children ?sect = []" and f: "first (pager ?sect) = start_page e - 1"
    by (simp_all add: make_section_def Let_def)
  have i1: "infos ?sect = {#info ?sect#}"
    by (simp add: make_section_def Let_def infos_Section info_def)
  from Cons.prems(4) ie f
  have "\<forall>x\<in>set (sections root_item). first (pager x) \<le> first (pager ?sect)"
    by (auto simp: infos_def info_def)
  from attach_starts_within [OF a Cons.prems(2) leaf this]
  have c1: "children_ok starts_within r1" .
  from Cons.prems(3) ie have s1: "sorted (map (\<lambda>(i, e). start_page e) ies)"
    and s2: "\<forall>(j, e')\<in>set ies. start_page e \<le> start_page e'" by auto
  have "\<forall>x\<in>#infos r1. \<forall>(i, e)\<in>set ies. first (snd x) \<le> start_page e - 1"
  proof (intro ballI)
    fix x je assume x: "x \<in># infos r1" and je: "je \<in> set ies"
    obtain j e' where je': "je = (j, e')" by (cases je)
    from x attach_infos [OF a] i1 have "x \<in># infos root_item \<or> x = info ?sect" by auto
    then have "first (snd x) \<le> start_page e' - 1"
    proof
      assume "x \<in># infos root_item"
      with Cons.prems(4) je je' show ?thesis by auto
    next
      assume "x = info ?sect"
      with f s2 je je' show ?thesis by (auto simp: info_def)
    qed
    with je' show "case je of (i, e) \<Rightarrow> first (snd x) \<le> start_page e - 1" by simp
  qed
  from Cons.IH [OF l c1 s1 this] show ?case .
qed

lemma starts_enumerate: "map (\<lambda>(i, e). start_page e) (enumerate n xs) = map start_page xs"
  by (induction xs arbitrary: n) simp_all

lemma toc_tree_starts_within:
  assumes "toc_tree toc t n = Inr r" "starts_sorted toc"
  shows "children_ok starts_within r"
proof -
  let ?root = "Section t \<lparr>first = 0, last_page = int n - 1, current = 0\<rparr> []"
  from assms(1) have l: "toc_loop toc (int n - 1) (enumerate 0 toc) ?root = Inr r"
    by (simp add: toc_tree_def)
  have c: "children_ok starts_within ?root" by simp
  from assms(2) have s: "sorted (map (\<lambda>(i, e). start_page e) (enumerate 0 toc))"
    by (simp add: starts_enumerate starts_sorted_def)
  from assms(2) have "\<forall>e\<in>set toc. 1 \<le> start_page e"
    by (simp add: starts_sorted_def list_all_iff)
  moreover have "\<forall>ie\<in>set (enumerate 0 toc). snd ie \<in> set toc"
    by (metis enumerate_eq_zip in_set_zipE prod.collapse)
  ultimately have "\<forall>x\<in>#infos ?root. \<forall>(i, e)\<in>set (enumerate 0 toc). first (snd x) \<le> start_page e - 1"
    by (fastforce simp: infos_Section)
  from toc_loop_starts_within [OF l c s this] show ?thesis .
qed

section \<open>Properties of structured navigation\<close>

lemma locate_forward_None:
  "locate family elements k True pos = None \<longleftrightarrow> remaining family elements k pos = 0"
  by (auto simp: locate_def remaining_def find_None_iff filter_empty_conv)








subsection \<open>The remembered result\<close>

lemma latest_go_to_element:
  "latest_structured_navigation_position (go_to_element env pos_info w) = Some pos_info"
  by (simp add: go_to_element_def Let_def set_insertion_point_def)

lemma navigation_never_clears:
  assumes "navigate_to_structural_element env element_type forward w = Some w1"
  shows "latest_structured_navigation_position w1 = latest_structured_navigation_position w
       \<or> latest_structured_navigation_position w1 \<noteq> None"
proof (rule navigate_to_structural_element.raw_induct
    [where P = "\<lambda>env element_type forward w w1.
       latest_structured_navigation_position w1 = latest_structured_navigation_position w
       \<or> latest_structured_navigation_position w1 \<noteq> None", OF _ assms])
  fix nav :: "('a, 'b) viewer_env \<Rightarrow> 'a \<Rightarrow> bool \<Rightarrow> ('a, 'b) window \<Rightarrow> ('a, 'b) window option"
    and env element_type forward w w1
  assume IH: "\<And>env element_type forward w y. nav env element_type forward w = Some y \<Longrightarrow>
      latest_structured_navigation_position y = latest_structured_navigation_position w
      \<or> latest_structured_navigation_position y \<noteq> None"
    and body: "(if \<not> reader_ready env then Some (w\<lparr>events := events w @ [Bell]\<rparr>)
      else case get_semantic_element env element_type forward (insertion_point w) of
           None \<Rightarrow> Some (announce_no_element env element_type forward w)
           | Some pos \<Rightarrow>
               if latest_structured_navigation_position w = Some (insertion_point w, pos)
               then nav env element_type forward (set_insertion_point (snd (fst pos)) w)
               else Some (go_to_element env (insertion_point w, pos) w)) = Some w1"
  show "latest_structured_navigation_position w1 = latest_structured_navigation_position w
       \<or> latest_structured_navigation_position w1 \<noteq> None"
  proof (cases "reader_ready env")
    case False
    with body show ?thesis by auto
  next
    case True
    show ?thesis
    proof (cases "get_semantic_element env element_type forward (insertion_point w)")
      case None
      with True body show ?thesis by (auto simp: announce_no_element_def)
    next
      case (Some pos)
      show ?thesis
      proof (cases "latest_structured_navigation_position w = Some (insertion_point w, pos)")
        case False
        with True Some body have "w1 = go_to_element env (insertion_point w, pos) w" by simp
        then show ?thesis by (simp add: latest_go_to_element)
      next
        case eq: True
        with True Some body
        have "nav env element_type forward (set_insertion_point (snd (fst pos)) w) = Some w1"
          by simp
        from IH [OF this] show ?thesis by (simp add: set_insertion_point_def)
      qed
    qed
  qed
qed

subsection \<open>Two links on one line\<close>

lemma locate_two_links:
  "locate (=) [(LINK, 1, 2), (LINK, 5, 10)] LINK True 0 = Some ((1, 2), LINK)"
  "locate (=) [(LINK, 1, 2), (LINK, 5, 10)] LINK True 2 = Some ((5, 10), LINK)"
  "locate (=) [(LINK, 1, 2), (LINK, 5, 10)] LINK True 3 = Some ((5, 10), LINK)"
  by (simp_all add: locate_def qualifies_def)

lemma go_to_element_cycling:
  "cycling (go_to_element two_links (p, (a, b), LINK) w)
     \<longleftrightarrow> Some (p, (a, b), LINK) \<in> {Some (3, (5, 10), LINK), Some (0, (1, 2), LINK), Some (2, (5, 10), LINK)}"
  by (simp add: cycling_def go_to_element_def Let_def set_insertion_point_def two_links_def
      reading_def to_line_start_def one_line_def reported_none_def)

lemma cycling_step:
  assumes "cycling w"
  shows "\<exists>w1. navigate_to_structural_element two_links LINK True w = Some w1 \<and> cycling w1"
proof -
  from assms have ip: "insertion_point w = 0" by (simp add: cycling_def)
  from assms consider
    "latest_structured_navigation_position w = Some (3, (5, 10), LINK)"
    | "latest_structured_navigation_position w = Some (0, (1, 2), LINK)"
    | "latest_structured_navigation_position w = Some (2, (5, 10), LINK)"
    by (auto simp: cycling_def)
  then show ?thesis
  proof cases
    case 1
    with ip have "navigate_to_structural_element two_links LINK True w
        = Some (go_to_element two_links (0, (1, 2), LINK) w)"
      by (subst navigate_to_structural_element.simps)
         (simp add: two_links_def reading_def locate_two_links)
    then show ?thesis by (simp add: go_to_element_cycling)
  next
    case 2
    let ?w = "set_insertion_point 2 w"
    from 2 ip have "navigate_to_structural_element two_links LINK True w
        = navigate_to_structural_element two_links LINK True ?w"
      by (subst navigate_to_structural_element.simps)
         (simp add: two_links_def reading_def locate_two_links)
    also from 2 have "\<dots> = Some (go_to_element two_links (2, (5, 10), LINK) ?w)"
      by (subst navigate_to_structural_element.simps)
         (simp add: two_links_def reading_def locate_two_links set_insertion_point_def)
    finally show ?thesis by (simp add: go_to_element_cycling)
  next
    case 3
    with ip have "navigate_to_structural_element two_links LINK True w
        = Some (go_to_element two_links (0, (1, 2), LINK) w)"
      by (subst navigate_to_structural_element.simps)
         (simp add: two_links_def reading_def locate_two_links)
    then show ?thesis by (simp add: go_to_element_cycling)
  qed
qed

lemma cycling_presses:
  "cycling w \<Longrightarrow> \<exists>w1. presses two_links LINK True n w = Some w1 \<and> cycling w1"
proof (induction n arbitrary: w)
  case 0
  then show ?case by simp
next
  case (Suc n)
  from cycling_step [OF Suc.prems] obtain w1 where
    "navigate_to_structural_element two_links LINK True w = Some w1" "cycling w1" by blast
  with Suc.IH [of w1] show ?case by simp
qed

lemma first_press_cycling:
  "\<exists>w1. navigate_to_structural_element two_links LINK True
      ((new_window True True)\<lparr>insertion_point := 3\<rparr>) = Some w1 \<and> cycling w1"
proof -
  have "navigate_to_structural_element two_links LINK True ((new_window True True)\<lparr>insertion_point := 3\<rparr>)
      = Some (go_to_element two_links (3, (5, 10), LINK) ((new_window True True)\<lparr>insertion_point := 3\<rparr>))"
    by (subst navigate_to_structural_element.simps)
       (simp add: two_links_def reading_def locate_two_links new_window_def)
  then show ?thesis by (simp add: go_to_element_cycling)
qed

section \<open>The claims about the table of contents\<close>




text \<open>
  C2, as amended. For the outline of the scenario over 50 pages the root has three
  children, \<^verbatim>\<open>Ch1\<close> has the single child \<^verbatim>\<open>Ch1.1\<close>, the range of \<^verbatim>\<open>Ch1\<close> is [2, 10] and
  that of \<^verbatim>\<open>Ch2\<close> is [11, 49]; the range of \<^verbatim>\<open>Ch1.1\<close> is [4, 49], since no later entry
  has level 2.
\<close>

theorem scenario_tree:
  "toc_tree [(1, ''Intro'', 1), (1, ''Ch1'', 3), (2, ''Ch1.1'', 5), (1, ''Ch2'', 12)] doc_title 50
   = Inr (Section doc_title \<lparr>first = 0, last_page = 49, current = 0\<rparr>
       [Section ''Intro'' \<lparr>first = 0, last_page = 1, current = 0\<rparr> [],
        Section ''Ch1'' \<lparr>first = 2, last_page = 10, current = 2\<rparr>
          [Section ''Ch1.1'' \<lparr>first = 4, last_page = 49, current = 4\<rparr> []],
        Section ''Ch2'' \<lparr>first = 11, last_page = 49, current = 11\<rparr> []])"
  by code_simp

text \<open>
  C2 as it is stated fails: the second child of the root has one child, its title is
  \<^verbatim>\<open>Ch1.1\<close>, and its range is not [4, 10].
\<close>

theorem scenario_ch11_counterexample:
  "map_option title
     (result_at (toc_tree [(1, ''Intro'', 1), (1, ''Ch1'', 3), (2, ''Ch1.1'', 5), (1, ''Ch2'', 12)]
        ''Book'' 50) [1, 0]) = Some ''Ch1.1''
   \<and> map_option page_range
     (result_at (toc_tree [(1, ''Intro'', 1), (1, ''Ch1'', 3), (2, ''Ch1.1'', 5), (1, ''Ch2'', 12)]
        ''Book'' 50) [1, 0]) \<noteq> Some (4, 10)"
  by code_simp

text \<open>
  C3, as amended. In every tree that \<open>toc_tree\<close> returns, the current page of each
  section is its first page. If the document has a page, no entry starts beyond the last
  page and entries of the same level start on strictly increasing pages, then every
  section has its first page at or before its current page and that at or before its
  last page. If the start pages are at least 1 and do not decrease in document order,
  then no child starts before its parent. Nothing is said of a child's last page.
\<close>

theorem toc_tree_pagers:
  assumes "toc_tree toc_info doc_title n_pages = Inr root_item"
  shows "list_all (\<lambda>s. current (pager s) = first (pager s)) (sections root_item)
    \<and> (0 < n_pages \<and> starts_bounded toc_info n_pages \<and> same_level_increasing toc_info
         \<longrightarrow> all_pagers_ok root_item)
    \<and> (starts_sorted toc_info \<longrightarrow> children_ok starts_within root_item)"
  using toc_tree_current [OF assms] toc_tree_all_pagers_ok [OF assms]
    toc_tree_starts_within [OF assms]
  by (simp add: list_all_iff)

text \<open>
  The theorem at the outline of the scenario, which meets all three conditions.
\<close>

theorem toc_tree_pagers_witness:
  "toc_tree [(1, ''Intro'', 1), (1, ''Ch1'', 3), (2, ''Ch1.1'', 5), (1, ''Ch2'', 12)] ''Book'' 50
     = Inr (Section ''Book'' \<lparr>first = 0, last_page = 49, current = 0\<rparr>
       [Section ''Intro'' \<lparr>first = 0, last_page = 1, current = 0\<rparr> [],
        Section ''Ch1'' \<lparr>first = 2, last_page = 10, current = 2\<rparr>
          [Section ''Ch1.1'' \<lparr>first = 4, last_page = 49, current = 4\<rparr> []],
        Section ''Ch2'' \<lparr>first = 11, last_page = 49, current = 11\<rparr> []])
   \<and> (0 :: nat) < 50
   \<and> starts_bounded [(1, ''Intro'', 1), (1, ''Ch1'', 3), (2, ''Ch1.1'', 5), (1, ''Ch2'', 12)] 50
   \<and> same_level_increasing [(1, ''Intro'', 1), (1, ''Ch1'', 3), (2, ''Ch1.1'', 5), (1, ''Ch2'', 12)]
   \<and> starts_sorted [(1, ''Intro'', 1), (1, ''Ch1'', 3), (2, ''Ch1.1'', 5), (1, ''Ch2'', 12)]
   \<and> all_pagers_ok (Section ''Book'' \<lparr>first = 0, last_page = 49, current = 0\<rparr>
       [Section ''Intro'' \<lparr>first = 0, last_page = 1, current = 0\<rparr> [],
        Section ''Ch1'' \<lparr>first = 2, last_page = 10, current = 2\<rparr>
          [Section ''Ch1.1'' \<lparr>first = 4, last_page = 49, current = 4\<rparr> []],
        Section ''Ch2'' \<lparr>first = 11, last_page = 49, current = 11\<rparr> []])
   \<and> children_ok starts_within (Section ''Book'' \<lparr>first = 0, last_page = 49, current = 0\<rparr>
       [Section ''Intro'' \<lparr>first = 0, last_page = 1, current = 0\<rparr> [],
        Section ''Ch1'' \<lparr>first = 2, last_page = 10, current = 2\<rparr>
          [Section ''Ch1.1'' \<lparr>first = 4, last_page = 49, current = 4\<rparr> []],
        Section ''Ch2'' \<lparr>first = 11, last_page = 49, current = 11\<rparr> []])"
proof -
  have t: "toc_tree [(1, ''Intro'', 1), (1, ''Ch1'', 3), (2, ''Ch1.1'', 5), (1, ''Ch2'', 12)] ''Book'' 50
     = Inr (Section ''Book'' \<lparr>first = 0, last_page = 49, current = 0\<rparr>
       [Section ''Intro'' \<lparr>first = 0, last_page = 1, current = 0\<rparr> [],
        Section ''Ch1'' \<lparr>first = 2, last_page = 10, current = 2\<rparr>
          [Section ''Ch1.1'' \<lparr>first = 4, last_page = 49, current = 4\<rparr> []],
        Section ''Ch2'' \<lparr>first = 11, last_page = 49, current = 11\<rparr> []])"
    by code_simp
  have h: "(0 :: nat) < 50
    \<and> starts_bounded [(1, ''Intro'', 1), (1, ''Ch1'', 3), (2, ''Ch1.1'', 5), (1, ''Ch2'', 12)] 50
    \<and> same_level_increasing [(1, ''Intro'', 1), (1, ''Ch1'', 3), (2, ''Ch1.1'', 5), (1, ''Ch2'', 12)]"
    and s: "starts_sorted [(1, ''Intro'', 1), (1, ''Ch1'', 3), (2, ''Ch1.1'', 5), (1, ''Ch2'', 12)]"
    by (simp_all add: starts_bounded_def starts_sorted_def start_page_def level_def)
  from toc_tree_pagers [OF t] t h s show ?thesis by simp
qed

text \<open>
  C3 as it is stated fails on a well nested outline with start pages in order: \<^verbatim>\<open>A\<close> and
  \<^verbatim>\<open>B\<close> start on the same page, so \<^verbatim>\<open>A\<close> ends before it starts, and \<^verbatim>\<open>B.1\<close> ends on the
  last page of the document, after its parent \<^verbatim>\<open>B\<close>.
\<close>

theorem pager_invariant_counterexample:
  "well_nested [(1, ''A'', 1), (1, ''B'', 1), (2, ''B.1'', 2), (1, ''C'', 5)]
   \<and> toc_tree [(1, ''A'', 1), (1, ''B'', 1), (2, ''B.1'', 2), (1, ''C'', 5)] ''Book'' 10
     = Inr (Section ''Book'' \<lparr>first = 0, last_page = 9, current = 0\<rparr>
       [Section ''A'' \<lparr>first = 0, last_page = - 1, current = 0\<rparr> [],
        Section ''B'' \<lparr>first = 0, last_page = 3, current = 0\<rparr>
          [Section ''B.1'' \<lparr>first = 1, last_page = 9, current = 1\<rparr> []],
        Section ''C'' \<lparr>first = 4, last_page = 9, current = 4\<rparr> []])
   \<and> \<not> all_pagers_ok (Section ''Book'' \<lparr>first = 0, last_page = 9, current = 0\<rparr>
       [Section ''A'' \<lparr>first = 0, last_page = - 1, current = 0\<rparr> [],
        Section ''B'' \<lparr>first = 0, last_page = 3, current = 0\<rparr>
          [Section ''B.1'' \<lparr>first = 1, last_page = 9, current = 1\<rparr> []],
        Section ''C'' \<lparr>first = 4, last_page = 9, current = 4\<rparr> []])
   \<and> \<not> children_ok within (Section ''Book'' \<lparr>first = 0, last_page = 9, current = 0\<rparr>
       [Section ''A'' \<lparr>first = 0, last_page = - 1, current = 0\<rparr> [],
        Section ''B'' \<lparr>first = 0, last_page = 3, current = 0\<rparr>
          [Section ''B.1'' \<lparr>first = 1, last_page = 9, current = 1\<rparr> []],
        Section ''C'' \<lparr>first = 4, last_page = 9, current = 4\<rparr> []])"
  by code_simp

text \<open>
  C4, as amended. For three entries of level 1 starting on pages 1, 10 and 20 of a
  document of 30 pages the ranges are [0, 8], [9, 18] and [19, 29].
\<close>

theorem three_siblings_tree:
  "toc_tree [(1, ''A'', 1), (1, ''B'', 10), (1, ''C'', 20)] doc_title 30
   = Inr (Section doc_title \<lparr>first = 0, last_page = 29, current = 0\<rparr>
       [Section ''A'' \<lparr>first = 0, last_page = 8, current = 0\<rparr> [],
        Section ''B'' \<lparr>first = 9, last_page = 18, current = 9\<rparr> [],
        Section ''C'' \<lparr>first = 19, last_page = 29, current = 19\<rparr> []])"
  by code_simp

text \<open>
  C4 as it is stated fails: the range of \<^verbatim>\<open>A\<close> is not [0, 7] and that of \<^verbatim>\<open>B\<close> is not
  [9, 17].
\<close>

theorem three_siblings_counterexample:
  "map_option title
     (result_at (toc_tree [(1, ''A'', 1), (1, ''B'', 10), (1, ''C'', 20)] ''Book'' 30) [0]) = Some ''A''
   \<and> map_option page_range
     (result_at (toc_tree [(1, ''A'', 1), (1, ''B'', 10), (1, ''C'', 20)] ''Book'' 30) [0]) \<noteq> Some (0, 7)
   \<and> map_option title
     (result_at (toc_tree [(1, ''A'', 1), (1, ''B'', 10), (1, ''C'', 20)] ''Book'' 30) [1]) = Some ''B''
   \<and> map_option page_range
     (result_at (toc_tree [(1, ''A'', 1), (1, ''B'', 10), (1, ''C'', 20)] ''Book'' 30) [1]) \<noteq> Some (9, 17)"
  by code_simp

text \<open>
  C5. The section made for the entry at \<open>index\<close> has the last page of the
  specification: with \<open>j\<close> the first index after \<open>index\<close> whose entry has the same level,
  two less than the start page of entry \<open>j\<close>, and the last page of the document when
  there is no such index. When \<open>toc_tree\<close> returns, the sections of the tree, with their
  titles and pagers, are the root and exactly these sections, one for each entry. The
  scan stops at equal levels only: it passes entries of any other level, deeper or not.
\<close>

theorem toc_tree_last_pages:
  assumes "index < length toc_info"
  shows "last_page (pager (make_section toc_info (int n_pages - 1) index (toc_info ! index)))
           = spec_last_page toc_info n_pages index
    \<and> (toc_tree toc_info doc_title n_pages = Inr root_item \<longrightarrow>
         infos root_item
           = add_mset (doc_title, \<lparr>first = 0, last_page = int n_pages - 1, current = 0\<rparr>)
               (mset (map (spec_info toc_info n_pages) [0 ..< length toc_info])))"
proof
  have "snd (info (make_section toc_info (int n_pages - 1) index (toc_info ! index)))
      = snd (spec_info toc_info n_pages index)"
    by (simp only: info_make_section)
  then show "last_page (pager (make_section toc_info (int n_pages - 1) index (toc_info ! index)))
      = spec_last_page toc_info n_pages index"
    by (simp add: info_def spec_info_def)
next
  show "toc_tree toc_info doc_title n_pages = Inr root_item \<longrightarrow>
     infos root_item
       = add_mset (doc_title, \<lparr>first = 0, last_page = int n_pages - 1, current = 0\<rparr>)
           (mset (map (spec_info toc_info n_pages) [0 ..< length toc_info]))"
    by (simp add: toc_tree_infos)
qed

text \<open>
  The theorem at the entry \<^verbatim>\<open>Ch1\<close> of the scenario: the next entry of level 1 is \<^verbatim>\<open>Ch2\<close>
  on page 12, and the last page is 10.
\<close>

theorem toc_tree_last_pages_witness:
  "(1 :: nat) < length [(1 :: int, ''Intro'', 1 :: int), (1, ''Ch1'', 3), (2, ''Ch1.1'', 5), (1, ''Ch2'', 12)]
   \<and> toc_tree [(1, ''Intro'', 1), (1, ''Ch1'', 3), (2, ''Ch1.1'', 5), (1, ''Ch2'', 12)] ''Book'' 50
     = Inr (Section ''Book'' \<lparr>first = 0, last_page = 49, current = 0\<rparr>
       [Section ''Intro'' \<lparr>first = 0, last_page = 1, current = 0\<rparr> [],
        Section ''Ch1'' \<lparr>first = 2, last_page = 10, current = 2\<rparr>
          [Section ''Ch1.1'' \<lparr>first = 4, last_page = 49, current = 4\<rparr> []],
        Section ''Ch2'' \<lparr>first = 11, last_page = 49, current = 11\<rparr> []])
   \<and> last_page (pager (make_section
         [(1, ''Intro'', 1), (1, ''Ch1'', 3), (2, ''Ch1.1'', 5), (1, ''Ch2'', 12)] (int 50 - 1) 1
         ([(1, ''Intro'', 1), (1, ''Ch1'', 3), (2, ''Ch1.1'', 5), (1, ''Ch2'', 12)] ! 1)))
     = spec_last_page [(1, ''Intro'', 1), (1, ''Ch1'', 3), (2, ''Ch1.1'', 5), (1, ''Ch2'', 12)] 50 1
   \<and> spec_last_page [(1, ''Intro'', 1), (1, ''Ch1'', 3), (2, ''Ch1.1'', 5), (1, ''Ch2'', 12)] 50 1 = 10
   \<and> infos (Section ''Book'' \<lparr>first = 0, last_page = 49, current = 0\<rparr>
       [Section ''Intro'' \<lparr>first = 0, last_page = 1, current = 0\<rparr> [],
        Section ''Ch1'' \<lparr>first = 2, last_page = 10, current = 2\<rparr>
          [Section ''Ch1.1'' \<lparr>first = 4, last_page = 49, current = 4\<rparr> []],
        Section ''Ch2'' \<lparr>first = 11, last_page = 49, current = 11\<rparr> []])
     = add_mset (''Book'', \<lparr>first = 0, last_page = int 50 - 1, current = 0\<rparr>)
         (mset (map (spec_info [(1, ''Intro'', 1), (1, ''Ch1'', 3), (2, ''Ch1.1'', 5), (1, ''Ch2'', 12)] 50)
            [0 ..< length [(1 :: int, ''Intro'', 1 :: int), (1, ''Ch1'', 3), (2, ''Ch1.1'', 5), (1, ''Ch2'', 12)]]))"
proof -
  have t: "toc_tree [(1, ''Intro'', 1), (1, ''Ch1'', 3), (2, ''Ch1.1'', 5), (1, ''Ch2'', 12)] ''Book'' 50
     = Inr (Section ''Book'' \<lparr>first = 0, last_page = 49, current = 0\<rparr>
       [Section ''Intro'' \<lparr>first = 0, last_page = 1, current = 0\<rparr> [],
        Section ''Ch1'' \<lparr>first = 2, last_page = 10, current = 2\<rparr>
          [Section ''Ch1.1'' \<lparr>first = 4, last_page = 49, current = 4\<rparr> []],
        Section ''Ch2'' \<lparr>first = 11, last_page = 49, current = 11\<rparr> []])"
    by code_simp
  have v: "spec_last_page [(1, ''Intro'', 1), (1, ''Ch1'', 3), (2, ''Ch1.1'', 5), (1, ''Ch2'', 12)] 50 1 = 10"
    by code_simp
  have l: "(1 :: nat) < length [(1 :: int, ''Intro'', 1 :: int), (1, ''Ch1'', 3), (2, ''Ch1.1'', 5), (1, ''Ch2'', 12)]"
    by simp
  from toc_tree_last_pages [OF l, of 50 "''Book''"] t v l show ?thesis by blast
qed

text \<open>
  An entry of lesser depth between two entries of level 2 does not stop the scan: \<^verbatim>\<open>A.1\<close>
  ends two pages before the start page of \<^verbatim>\<open>B.1\<close>, after its parent \<^verbatim>\<open>A\<close>.
\<close>

lemma scan_passes_shallower_entry:
  "toc_tree [(1, ''A'', 1), (2, ''A.1'', 2), (1, ''B'', 5), (2, ''B.1'', 7)] doc_title 10
   = Inr (Section doc_title \<lparr>first = 0, last_page = 9, current = 0\<rparr>
       [Section ''A'' \<lparr>first = 0, last_page = 3, current = 0\<rparr>
          [Section ''A.1'' \<lparr>first = 1, last_page = 5, current = 1\<rparr> []],
        Section ''B'' \<lparr>first = 4, last_page = 9, current = 4\<rparr>
          [Section ''B.1'' \<lparr>first = 6, last_page = 9, current = 6\<rparr> []]])"
  by code_simp

section \<open>The claims about navigation\<close>




text \<open>
  The same presses never come to an end: after any number of them the cursor is at 0 and
  the last call has found a link.
\<close>

lemma two_links_never_end:
  "\<exists>w1. presses two_links LINK True (Suc n) ((new_window True True)\<lparr>insertion_point := 3\<rparr>) = Some w1
     \<and> insertion_point w1 = 0 \<and> \<not> reported_none two_links LINK True w1"
proof -
  from first_press_cycling obtain w0 where
    n: "navigate_to_structural_element two_links LINK True
      ((new_window True True)\<lparr>insertion_point := 3\<rparr>) = Some w0" and c: "cycling w0" by blast
  from cycling_presses [OF c, of n] n show ?thesis by (auto simp: cycling_def)
qed

text \<open>
  C7, as amended. The remembered navigation result is \<^verbatim>\<open>None\<close> in a new window; a click
  on an item of the table of contents and a move by \<^verbatim>\<open>go_to_position\<close> leave it as it is;
  and a call of \<^verbatim>\<open>navigate_to_structural_element\<close> leaves it as it is or sets it to a
  result, so that nothing clears it.
\<close>

theorem memento_not_cleared:
  "latest_structured_navigation_position (new_window opsc ossc :: ('k, 's) window) = None
   \<and> latest_structured_navigation_position (onTOCItemClick env item_data w)
       = latest_structured_navigation_position w
   \<and> latest_structured_navigation_position (go_to_position env start_pos end_pos w)
       = latest_structured_navigation_position w
   \<and> (navigate_to_structural_element env element_type forward w = Some w1 \<longrightarrow>
        latest_structured_navigation_position w1 = latest_structured_navigation_position w
        \<or> latest_structured_navigation_position w1 \<noteq> None)"
  using navigation_never_clears [of env element_type forward w w1]
  by (simp add: new_window_def onTOCItemClick_def go_to_position_def Let_def set_insertion_point_def)

text \<open>
  The theorem at a first press of the key for the next link in a new window: the call
  returns and the window remembers where it was and what it found.
\<close>

theorem memento_not_cleared_witness:
  "navigate_to_structural_element
     (reading (=) [(LINK, 5, 10)] to_element_start one_line some_text) LINK True
     (new_window True True :: (semantic_element_type, unit) window)
     = Some \<lparr>insertion_point = 5,
             latest_structured_navigation_position = Some (0, (5, 10), LINK),
             speak_page_number = True, speak_section_title = True, active_section = None,
             events = [Announce ''text: Link'', Play_structured_navigation,
                       Reading_position_change 5 ''Link'']\<rparr>
   \<and> latest_structured_navigation_position (new_window True True :: (semantic_element_type, unit) window)
       = None
   \<and> latest_structured_navigation_position
        \<lparr>insertion_point = 5,
         latest_structured_navigation_position = Some (0, (5, 10), LINK),
         speak_page_number = True, speak_section_title = True, active_section = None :: unit option,
         events = [Announce ''text: Link'', Play_structured_navigation,
                   Reading_position_change 5 ''Link'']\<rparr>
       \<noteq> None"
proof -
  have n: "navigate_to_structural_element
     (reading (=) [(LINK, 5, 10)] to_element_start one_line some_text) LINK True
     (new_window True True :: (semantic_element_type, unit) window)
     = Some \<lparr>insertion_point = 5,
             latest_structured_navigation_position = Some (0, (5, 10), LINK),
             speak_page_number = True, speak_section_title = True, active_section = None,
             events = [Announce ''text: Link'', Play_structured_navigation,
                       Reading_position_change 5 ''Link'']\<rparr>"
    by code_simp
  from memento_not_cleared
    [where env = "reading (=) [(LINK, 5, 10)] to_element_start one_line some_text"
       and w = "new_window True True" and element_type = LINK and forward = True
       and opsc = True and ossc = True
       and ?w1.0 = "\<lparr>insertion_point = 5,
             latest_structured_navigation_position = Some (0, (5, 10), LINK),
             speak_page_number = True, speak_section_title = True, active_section = None,
             events = [Announce ''text: Link'', Play_structured_navigation,
                       Reading_position_change 5 ''Link'']\<rparr>"] n
  show ?thesis by (simp add: new_window_def)
qed

text \<open>
  C7 as it is stated fails: after a click on an item of the table of contents the window
  still remembers the result it had.
\<close>

theorem toc_click_counterexample:
  "latest_structured_navigation_position
     (onTOCItemClick (reading (=) [(LINK, 5, 10)] to_element_start one_line some_text) ()
        ((new_window True True :: (semantic_element_type, unit) window)
           \<lparr>latest_structured_navigation_position := Some (0, (5, 10), LINK)\<rparr>))
   \<noteq> None"
  by (simp add: new_window_def onTOCItemClick_def Let_def)

text \<open>
  C8. For an empty outline \<open>toc_tree\<close> returns the root without children, and in an
  empty sequence of elements every search, forward or backward, finds nothing.
\<close>

theorem empty_input:
  "toc_tree [] doc_title n_pages
     = Inr (Section doc_title \<lparr>first = 0, last_page = int n_pages - 1, current = 0\<rparr> [])
   \<and> locate family [] element_kind forward from_position = None"
  by (simp add: toc_tree_def locate_def)

text \<open>
  C9. A call of \<^verbatim>\<open>navigate_to_structural_element\<close> in which the search returns \<^verbatim>\<open>None\<close>
  returns; it leaves the insertion point, the remembered result and the rest of the
  window as they were, and adds the announcement that there is no next or previous
  element and nothing else.
\<close>

theorem nothing_found:
  assumes "reader_ready env"
    and "get_semantic_element env element_type forward (insertion_point w) = None"
  shows "\<exists>w1. navigate_to_structural_element env element_type forward w = Some w1
     \<and> insertion_point w1 = insertion_point w
     \<and> latest_structured_navigation_position w1 = latest_structured_navigation_position w
     \<and> speak_page_number w1 = speak_page_number w
     \<and> speak_section_title w1 = speak_section_title w
     \<and> active_section w1 = active_section w
     \<and> events w1 = events w @ [Announce (no_element_msg env element_type forward)]"
  using assms
  by (subst navigate_to_structural_element.simps) (simp add: announce_no_element_def)

text \<open>
  The theorem with the cursor after the only link of a document.
\<close>

theorem nothing_found_witness:
  "reader_ready (reading (=) [(LINK, 5, 10)] to_element_start one_line some_text :: (semantic_element_type, unit) viewer_env)
   \<and> get_semantic_element (reading (=) [(LINK, 5, 10)] to_element_start one_line some_text :: (semantic_element_type, unit) viewer_env)
       LINK True (insertion_point ((new_window True True :: (semantic_element_type, unit) window)\<lparr>insertion_point := 7\<rparr>)) = None
   \<and> (\<exists>w1. navigate_to_structural_element
         (reading (=) [(LINK, 5, 10)] to_element_start one_line some_text) LINK True
         ((new_window True True :: (semantic_element_type, unit) window)\<lparr>insertion_point := 7\<rparr>) = Some w1
       \<and> insertion_point w1 = 7
       \<and> latest_structured_navigation_position w1 = None
       \<and> events w1 = [Announce ''No next Link''])"
proof -
  have h: "reader_ready (reading (=) [(LINK, 5, 10)] to_element_start one_line some_text :: (semantic_element_type, unit) viewer_env)"
    "get_semantic_element (reading (=) [(LINK, 5, 10)] to_element_start one_line some_text :: (semantic_element_type, unit) viewer_env)
       LINK True (insertion_point ((new_window True True :: (semantic_element_type, unit) window)\<lparr>insertion_point := 7\<rparr>)) = None"
    by (simp_all add: reading_def locate_def qualifies_def)
  from nothing_found [OF h] h show ?thesis
    by (auto simp: new_window_def no_element_msg_def reading_def to_element_start_def)
qed

section \<open>The claim about the Piper speech engine\<close>


text \<open>
  An utterance that starts a voice and never ends it: the text is spoken with the new
  voice, and the old one is back when the method returns.
\<close>

lemma start_voice_is_undone:
  "speech_options (tts (fst (foldl (speak_element voice_only_api)
       (\<lparr>tts = \<lparr>speech_options = ''anna''\<rparr>, bgQueue = [], silence_event = True\<rparr>, None, (None, None, None))
       [Start_voice ''ben'', Text ''hello''])))
     = ''ben''
   \<and> speak_utterance voice_only_api [Start_voice ''ben'', Text ''hello'']
       \<lparr>tts = \<lparr>speech_options = ''anna''\<rparr>, bgQueue = [], silence_event = True\<rparr>
     = \<lparr>tts = \<lparr>speech_options = ''anna''\<rparr>,
        bgQueue = [ProcessPiperTask None, ProcessPiperTask (Some ''ben: hello''), DoneSpeaking],
        silence_event = False\<rparr>"
  by code_simp

end
